theory Spec2Isabelle
  imports Complex_Main "HOL-Library.Multiset"
begin

section \<open>The condition generator of the illusory line task\<close>

text \<open>
  The development follows \<^verbatim>\<open>conditionGenerator.py\<close>, a script of four phases over one
  list \<^verbatim>\<open>trials\<close>: allocation, reconciliation (an under-shoot and an over-shoot
  loop), a seeded shuffle, and numbering.

  Three things of the script are not list manipulation and are modelled as follows.
  \<^item> \<^verbatim>\<open>total_trials * proportion\<close> is a product of an integer and the decimal literal
    \<^verbatim>\<open>0.3333333333333\<close>. The product is taken exactly, over the rationals, and
    \<^verbatim>\<open>round\<close> is Python's rounding to the nearest integer, ties to the even one.
    For a total below \<open>10\<^sup>1\<^sup>2\<close> in magnitude the exact product differs from a third of
    the total by less than \<open>1/25\<close>, so it stays further than \<open>1/8\<close> from every tie,
    while the binary product is within \<open>1/1000\<close> of the exact one: both round alike.
    Beyond that magnitude the binary product can round to another integer, and from
    about \<open>1.8 * 10\<^sup>3\<^sup>0\<^sup>8\<close> on the product itself raises \<^verbatim>\<open>OverflowError\<close>; the model
    has neither, and speaks for the script on totals below \<open>10\<^sup>1\<^sup>2\<close> in magnitude.
  \<^item> The module \<^verbatim>\<open>random\<close> is a hidden global generator. Its state is a value of an
    arbitrary type \<open>'g\<close>; the function that draws from it and the function that seeds
    it are parameters of the model, so every theorem holds for every generator.
  \<^item> An exception is a value: on such totals the four phases can only raise
    \<^verbatim>\<open>IndexError\<close>.
\<close>

subsection \<open>Data\<close>

text \<open>
  A trial is a dictionary with the keys \<^verbatim>\<open>cueCondition\<close> and \<^verbatim>\<open>lineCondition\<close>;
  numbering adds the key \<^verbatim>\<open>trial_num\<close>, absent (\<open>None\<close>) until then.
\<close>

record trial =
  cueCondition :: string
  lineCondition :: string
  trial_num :: "int option"

datatype py_error = IndexError

definition cue_conditions :: "string list" where
  "cue_conditions = [''cued'', ''uncued'']"

text \<open>A dictionary literal iterates in the order it is written: an association list.\<close>

definition line_conditions :: "(string \<times> rat) list" where
  "line_conditions =
     [(''congruent'',   3333333333333 / 10000000000000),
      (''incongruent'', 3333333333333 / 10000000000000),
      (''center'',      3333333333333 / 10000000000000)]"

subsection \<open>Rounding\<close>

text \<open>\<^verbatim>\<open>round(x)\<close> with one argument: the nearest integer, a tie going to the even one.\<close>

definition py_round :: "rat \<Rightarrow> int" where
  "py_round x =
     (let f = \<lfloor>x\<rfloor>; d = x - of_int f
      in if d < 1 / 2 then f
         else if 1 / 2 < d then f + 1
         else if even f then f else f + 1)"

subsection \<open>Allocation phase\<close>

text \<open>
  \<^verbatim>\<open>n_line = round(total_trials * proportion)\<close>, with the product taken exactly. It is
  the number the script computes for every total below \<open>10\<^sup>1\<^sup>2\<close> in magnitude.
\<close>

definition n_line :: "int \<Rightarrow> rat \<Rightarrow> int" where
  "n_line total_trials proportion = py_round (of_int total_trials * proportion)"

definition n_per_cue :: "int \<Rightarrow> rat \<Rightarrow> int" where
  "n_per_cue total_trials proportion =
     n_line total_trials proportion div int (length cue_conditions)"

text \<open>
  The two inner loops for one entry of the table. \<^verbatim>\<open>range(n)\<close> is empty for \<open>n \<le> 0\<close>,
  as \<open>replicate (nat n)\<close> is.
\<close>

definition alloc_line :: "int \<Rightarrow> string \<times> rat \<Rightarrow> trial list" where
  "alloc_line total_trials entry =
     (case entry of (line_type, proportion) \<Rightarrow>
        concat (map (\<lambda>cue.
          replicate (nat (n_per_cue total_trials proportion))
            \<lparr>cueCondition = cue, lineCondition = line_type, trial_num = None\<rparr>)
          cue_conditions))"

definition allocate :: "int \<Rightarrow> trial list" where
  "allocate total_trials = concat (map (alloc_line total_trials) line_conditions)"

subsection \<open>The random generator\<close>

text \<open>
  \<open>rb g n\<close> is one draw below \<open>n\<close> from the generator in state \<open>g\<close>: the number drawn
  and the next state. The library promises a number below \<open>n\<close>; the model reduces the
  draw modulo \<open>n\<close>, which changes nothing for a generator that keeps the promise and
  lets every function serve as one.
\<close>

type_synonym 'g randbelow = "'g \<Rightarrow> nat \<Rightarrow> nat \<times> 'g"

definition draw :: "'g randbelow \<Rightarrow> 'g \<Rightarrow> nat \<Rightarrow> nat \<times> 'g" where
  "draw rb g n = (case rb g n of (r, g') \<Rightarrow> (r mod n, g'))"

text \<open>
  \<^verbatim>\<open>random.choice(seq)\<close> on a non-empty sequence; both calls of the script pass a
  list of two elements.
\<close>

definition choice :: "'g randbelow \<Rightarrow> 'g \<Rightarrow> 'a list \<Rightarrow> 'a \<times> 'g" where
  "choice rb g seq = (case draw rb g (length seq) of (r, g') \<Rightarrow> (seq ! r, g'))"

subsection \<open>Reconciliation phase\<close>

text \<open>The body of the first loop: two choices, one record appended.\<close>

definition under_body :: "'g randbelow \<Rightarrow> trial list \<times> 'g \<Rightarrow> trial list \<times> 'g" where
  "under_body rb s =
     (case s of (trials, g) \<Rightarrow>
        case choice rb g cue_conditions of (cue, g1) \<Rightarrow>
        case choice rb g1 [''congruent'', ''incongruent''] of (line, g2) \<Rightarrow>
          (trials @ [\<lparr>cueCondition = cue, lineCondition = line, trial_num = None\<rparr>], g2))"

function under_shoot :: "'g randbelow \<Rightarrow> int \<Rightarrow> trial list \<times> 'g \<Rightarrow> trial list \<times> 'g" where
  "under_shoot rb total_trials s =
     (if int (length (fst s)) < total_trials
      then under_shoot rb total_trials (under_body rb s)
      else s)"
  by pat_completeness auto
termination
  by (relation "measure (\<lambda>(rb, total_trials, s). nat (total_trials - int (length (fst s))))")
     (auto simp: under_body_def split: prod.splits)

declare under_shoot.simps [simp del]

text \<open>
  \<^verbatim>\<open>next((i for i, t in enumerate(trials) if t["lineCondition"] == "center"), 0)\<close>:
  the index of the first record of the line condition center, and 0 when there is none.
\<close>

fun first_center :: "trial list \<Rightarrow> nat option" where
  "first_center [] = None"
| "first_center (t # ts) =
     (if lineCondition t = ''center'' then Some 0
      else map_option Suc (first_center ts))"

definition next_center :: "trial list \<Rightarrow> nat" where
  "next_center trials = (case first_center trials of Some i \<Rightarrow> i | None \<Rightarrow> 0)"

text \<open>\<^verbatim>\<open>del xs[i]\<close> for an index \<open>i \<ge> 0\<close>; out of range it raises.\<close>

definition del_at :: "'a list \<Rightarrow> nat \<Rightarrow> py_error + 'a list" where
  "del_at xs i = (if i < length xs then Inr (take i xs @ drop (Suc i) xs) else Inl IndexError)"

definition over_body :: "trial list \<Rightarrow> py_error + trial list" where
  "over_body trials = del_at trials (next_center trials)"

function over_shoot :: "int \<Rightarrow> trial list \<Rightarrow> py_error + trial list" where
  "over_shoot total_trials trials =
     (if total_trials < int (length trials)
      then (case over_body trials of
              Inl e \<Rightarrow> Inl e
            | Inr trials' \<Rightarrow> over_shoot total_trials trials')
      else Inr trials)"
  by pat_completeness auto
termination
  by (relation "measure (\<lambda>(total_trials, trials). length trials)")
     (auto simp: over_body_def del_at_def split: if_splits)

declare over_shoot.simps [simp del]

subsection \<open>Shuffle and number\<close>

text \<open>
  \<^verbatim>\<open>random.shuffle(x)\<close> of the standard library:
  \<^verbatim>\<open>for i in reversed(range(1, len(x))): j = randbelow(i + 1); x[i], x[j] = x[j], x[i]\<close>.
  The first argument of \<open>shuffle_loop\<close> counts the iterations left; the iteration with
  \<open>Suc k\<close> left has \<open>i = Suc k\<close>.
\<close>

fun shuffle_loop :: "'g randbelow \<Rightarrow> nat \<Rightarrow> 'a list \<Rightarrow> 'g \<Rightarrow> 'a list \<times> 'g" where
  "shuffle_loop rb 0 x g = (x, g)"
| "shuffle_loop rb (Suc k) x g =
     (case draw rb g (Suc k + 1) of (j, g') \<Rightarrow>
        shuffle_loop rb k (x[Suc k := x ! j, j := x ! Suc k]) g')"

definition shuffle :: "'g randbelow \<Rightarrow> 'a list \<Rightarrow> 'g \<Rightarrow> 'a list \<times> 'g" where
  "shuffle rb x g = shuffle_loop rb (length x - 1) x g"

text \<open>\<^verbatim>\<open>for i, t in enumerate(trials, 1): t["trial_num"] = i\<close>\<close>

definition number :: "trial list \<Rightarrow> trial list" where
  "number trials = map (\<lambda>(i, t). t\<lparr>trial_num := Some (int i)\<rparr>) (enumerate 1 trials)"

subsection \<open>The script\<close>

text \<open>
  \<open>sd\<close> is \<^verbatim>\<open>random.seed\<close>: the state of the generator after seeding. \<open>g0\<close> is the state
  the generator has when the script starts, which no seed fixes.
\<close>

definition reconcile :: "'g randbelow \<Rightarrow> 'g \<Rightarrow> int \<Rightarrow> trial list \<Rightarrow> py_error + trial list" where
  "reconcile rb g0 total_trials trials =
     over_shoot total_trials (fst (under_shoot rb total_trials (trials, g0)))"

definition shuffle_and_number :: "'g randbelow \<Rightarrow> (int \<Rightarrow> 'g) \<Rightarrow> int \<Rightarrow> trial list \<Rightarrow> trial list" where
  "shuffle_and_number rb sd seed trials = number (fst (shuffle rb trials (sd seed)))"

definition generate ::
  "'g randbelow \<Rightarrow> (int \<Rightarrow> 'g) \<Rightarrow> 'g \<Rightarrow> int \<Rightarrow> int \<Rightarrow> py_error + trial list" where
  "generate rb sd g0 total_trials seed =
     (case reconcile rb g0 total_trials (allocate total_trials) of
        Inl e \<Rightarrow> Inl e
      | Inr trials \<Rightarrow> Inr (shuffle_and_number rb sd seed trials))"

text \<open>
  A generator to evaluate the script with: its state is a counter, and a draw returns
  the counter. Seeding sets the counter to the magnitude of the seed.
\<close>

definition counter_rb :: "nat randbelow" where
  "counter_rb g n = (g, Suc g)"

definition counter_seed :: "int \<Rightarrow> nat" where
  "counter_seed seed = nat \<bar>seed\<bar>"

text \<open>The pair of factor levels of a record, which the summary of the script groups by.\<close>

definition cue_line :: "trial \<Rightarrow> string \<times> string" where
  "cue_line t = (cueCondition t, lineCondition t)"

section \<open>Properties\<close>

subsection \<open>Rounding and the size of the allocation\<close>

lemma py_round_cases:
  "(py_round x = \<lfloor>x\<rfloor> \<and> x - of_int \<lfloor>x\<rfloor> \<le> 1 / 2) \<or>
   (py_round x = \<lfloor>x\<rfloor> + 1 \<and> 1 / 2 \<le> x - of_int \<lfloor>x\<rfloor>)"
  unfolding py_round_def Let_def by (simp only: split: if_split) linarith

lemma py_round_le: "of_int (py_round x) \<le> x + 1 / 2"
proof -
  have fl: "of_int \<lfloor>x\<rfloor> \<le> x" by simp
  from py_round_cases [of x] show ?thesis
  proof
    assume "py_round x = \<lfloor>x\<rfloor> \<and> x - of_int \<lfloor>x\<rfloor> \<le> 1 / 2"
    then have e: "py_round x = \<lfloor>x\<rfloor>" ..
    have "of_int \<lfloor>x\<rfloor> \<le> x + 1 / 2" using fl by linarith
    then show ?thesis by (simp only: e)
  next
    assume "py_round x = \<lfloor>x\<rfloor> + 1 \<and> 1 / 2 \<le> x - of_int \<lfloor>x\<rfloor>"
    then show ?thesis by simp
  qed
qed

lemma py_round_ge: "x - 1 / 2 \<le> of_int (py_round x)"
proof -
  have fl: "x < of_int \<lfloor>x\<rfloor> + 1" by linarith
  from py_round_cases [of x] show ?thesis
  proof
    assume "py_round x = \<lfloor>x\<rfloor> \<and> x - of_int \<lfloor>x\<rfloor> \<le> 1 / 2"
    then show ?thesis by simp
  next
    assume "py_round x = \<lfloor>x\<rfloor> + 1 \<and> 1 / 2 \<le> x - of_int \<lfloor>x\<rfloor>"
    with fl show ?thesis by simp
  qed
qed

lemma allocate_eq:
  "allocate total_trials =
     (let k = nat (n_per_cue total_trials (3333333333333 / 10000000000000)) in
      replicate k \<lparr>cueCondition = ''cued'', lineCondition = ''congruent'', trial_num = None\<rparr> @
      replicate k \<lparr>cueCondition = ''uncued'', lineCondition = ''congruent'', trial_num = None\<rparr> @
      replicate k \<lparr>cueCondition = ''cued'', lineCondition = ''incongruent'', trial_num = None\<rparr> @
      replicate k \<lparr>cueCondition = ''uncued'', lineCondition = ''incongruent'', trial_num = None\<rparr> @
      replicate k \<lparr>cueCondition = ''cued'', lineCondition = ''center'', trial_num = None\<rparr> @
      replicate k \<lparr>cueCondition = ''uncued'', lineCondition = ''center'', trial_num = None\<rparr>)"
  by (simp add: allocate_def alloc_line_def line_conditions_def cue_conditions_def Let_def)

lemma length_allocate:
  "length (allocate total_trials) = 6 * nat (n_per_cue total_trials (3333333333333 / 10000000000000))"
  by (simp add: allocate_eq Let_def)

lemma n_line_nonpos:
  assumes "total_trials \<le> 0" "0 \<le> p"
  shows "n_line total_trials p \<le> 0"
proof -
  have "(of_int total_trials :: rat) * p \<le> 0"
    using assms by (simp add: mult_nonpos_nonneg)
  with py_round_le [of "of_int total_trials * p"]
  have "(of_int (n_line total_trials p) :: rat) \<le> 1 / 2"
    by (simp add: n_line_def)
  then have "(of_int (n_line total_trials p) :: rat) < of_int 1" by simp
  then have "n_line total_trials p < 1" by (simp only: of_int_less_iff)
  then show ?thesis by simp
qed

lemma allocate_nonpos: "total_trials \<le> 0 \<Longrightarrow> allocate total_trials = []"
  using n_line_nonpos [of total_trials "3333333333333 / 10000000000000"]
  by (simp add: allocate_eq Let_def n_per_cue_def cue_conditions_def)

lemma three_n_line_le:
  assumes "0 \<le> total_trials"
  shows "3 * n_line total_trials (3333333333333 / 10000000000000) \<le> total_trials + 1"
proof -
  let ?p = "3333333333333 / 10000000000000 :: rat"
  have "(of_int total_trials :: rat) * ?p \<le> of_int total_trials / 3"
    using assms by simp
  with py_round_le [of "of_int total_trials * ?p"]
  have "(of_int (n_line total_trials ?p) :: rat) \<le> of_int total_trials / 3 + 1 / 2"
    by (simp add: n_line_def)
  then have "(of_int (3 * n_line total_trials ?p) :: rat) < of_int (total_trials + 2)"
    by simp
  then have "3 * n_line total_trials ?p < total_trials + 2" by (simp only: of_int_less_iff)
  then show ?thesis by simp
qed

lemma length_allocate_le:
  assumes "0 \<le> total_trials"
  shows "int (length (allocate total_trials)) \<le> total_trials + 1"
proof -
  let ?n = "n_line total_trials (3333333333333 / 10000000000000)"
  have "int (length (allocate total_trials)) = 6 * int (nat (?n div 2))"
    by (simp add: length_allocate n_per_cue_def cue_conditions_def)
  also have "\<dots> \<le> 3 * max ?n 0" by (simp add: max_def) linarith
  also have "\<dots> \<le> total_trials + 1" using three_n_line_le [OF assms] assms by (simp add: max_def)
  finally show ?thesis .
qed

subsection \<open>The under-shoot loop\<close>

lemma length_under_body: "length (fst (under_body rb s)) = Suc (length (fst s))"
  by (simp add: under_body_def split: prod.splits)

lemma choice_in_set: "seq \<noteq> [] \<Longrightarrow> fst (choice rb g seq) \<in> set seq"
  by (simp add: choice_def draw_def split: prod.splits)

lemma under_body_appends:
  "\<exists>t. fst (under_body rb (trials, g)) = trials @ [t] \<and>
       cueCondition t \<in> set cue_conditions \<and>
       lineCondition t \<in> {''congruent'', ''incongruent''} \<and> trial_num t = None"
proof -
  obtain cue g1 where c: "choice rb g cue_conditions = (cue, g1)" by (cases "choice rb g cue_conditions")
  obtain line g2 where l: "choice rb g1 [''congruent'', ''incongruent''] = (line, g2)"
    by (cases "choice rb g1 [''congruent'', ''incongruent'']")
  have "cue \<in> set cue_conditions"
    using choice_in_set [of cue_conditions rb g] c by (simp add: cue_conditions_def)
  moreover have "line \<in> {''congruent'', ''incongruent''}"
    using choice_in_set [of "[''congruent'', ''incongruent'']" rb g1] l by simp
  ultimately show ?thesis
    by (simp add: under_body_def c l)
qed

lemma under_shoot_done:
  "total_trials \<le> int (length (fst s)) \<Longrightarrow> under_shoot rb total_trials s = s"
  by (simp add: under_shoot.simps)

lemma under_shoot_funpow:
  "under_shoot rb total_trials s =
     (under_body rb ^^ nat (total_trials - int (length (fst s)))) s"
proof (induction rb total_trials s rule: under_shoot.induct)
  case (1 rb total_trials s)
  show ?case
  proof (cases "int (length (fst s)) < total_trials")
    case True
    then have "nat (total_trials - int (length (fst s))) =
        Suc (nat (total_trials - int (length (fst (under_body rb s)))))"
      by (simp add: length_under_body)
    with True "1.IH" show ?thesis
      by (subst under_shoot.simps) (simp add: funpow_swap1)
  next
    case False
    then show ?thesis by (simp add: under_shoot.simps)
  qed
qed

lemma under_shoot_appends:
  "\<exists>added. fst (under_shoot rb total_trials (trials, g)) = trials @ added \<and>
     length added = nat (total_trials - int (length trials)) \<and>
     (\<forall>t \<in> set added. cueCondition t \<in> set cue_conditions \<and>
        lineCondition t \<in> {''congruent'', ''incongruent''} \<and> trial_num t = None)"
proof (induction rb total_trials "(trials, g)" arbitrary: trials g rule: under_shoot.induct)
  case (1 rb total_trials)
  show ?case
  proof (cases "int (length trials) < total_trials")
    case True
    obtain t where t: "fst (under_body rb (trials, g)) = trials @ [t]"
      "cueCondition t \<in> set cue_conditions"
      "lineCondition t \<in> {''congruent'', ''incongruent''}" "trial_num t = None"
      using under_body_appends [of rb trials g] by blast
    obtain g' where b: "under_body rb (trials, g) = (trials @ [t], g')"
      using t(1) by (cases "under_body rb (trials, g)") simp
    from "1.hyps" [OF _ b] True
    obtain added where a: "fst (under_shoot rb total_trials (trials @ [t], g')) = (trials @ [t]) @ added"
      "length added = nat (total_trials - int (length (trials @ [t])))"
      "\<forall>t \<in> set added. cueCondition t \<in> set cue_conditions \<and>
        lineCondition t \<in> {''congruent'', ''incongruent''} \<and> trial_num t = None"
      by auto
    have "under_shoot rb total_trials (trials, g) = under_shoot rb total_trials (trials @ [t], g')"
      using True b by (subst under_shoot.simps) simp
    with a t True show ?thesis
      by (intro exI [of _ "t # added"]) auto
  next
    case False
    then show ?thesis by (simp add: under_shoot.simps)
  qed
qed

lemma length_under_shoot:
  "int (length (fst (under_shoot rb total_trials (trials, g)))) = max total_trials (int (length trials))"
  using under_shoot_appends [of rb total_trials trials g] by auto

subsection \<open>The over-shoot loop\<close>

lemma first_center_None:
  "first_center ts = None \<longleftrightarrow> (\<forall>t \<in> set ts. lineCondition t \<noteq> ''center'')"
  by (induction ts) auto

lemma first_center_split:
  "\<forall>p \<in> set pre. lineCondition p \<noteq> ''center'' \<Longrightarrow> lineCondition t = ''center'' \<Longrightarrow>
   first_center (pre @ t # post) = Some (length pre)"
  by (induction pre) auto

lemma over_body_center:
  "\<forall>p \<in> set pre. lineCondition p \<noteq> ''center'' \<Longrightarrow> lineCondition t = ''center'' \<Longrightarrow>
   over_body (pre @ t # post) = Inr (pre @ post)"
  by (simp add: over_body_def next_center_def first_center_split del_at_def)

lemma over_body_no_center:
  "\<forall>p \<in> set (t # ts). lineCondition p \<noteq> ''center'' \<Longrightarrow> over_body (t # ts) = Inr ts"
  using first_center_None [of "t # ts"]
  by (simp add: over_body_def next_center_def del_at_def del: first_center.simps)

lemma over_body_Nil: "over_body [] = Inl IndexError"
  by (simp add: over_body_def next_center_def del_at_def)

lemma over_body_deletes_one:
  assumes "ts \<noteq> []"
  shows "\<exists>ts'. over_body ts = Inr ts' \<and> Suc (length ts') = length ts"
proof (cases "\<exists>t \<in> set ts. lineCondition t = ''center''")
  case True
  then obtain pre t post where "ts = pre @ t # post" "lineCondition t = ''center''"
    "\<forall>p \<in> set pre. lineCondition p \<noteq> ''center''"
    by (auto dest!: split_list_first_prop)
  then show ?thesis by (simp add: over_body_center)
next
  case False
  with assms obtain t ts0 where "ts = t # ts0" "\<forall>p \<in> set (t # ts0). lineCondition p \<noteq> ''center''"
    by (cases ts) auto
  then show ?thesis by (simp add: over_body_no_center del: set_simps)
qed

lemma over_body_filter:
  assumes "\<exists>t \<in> set ts. lineCondition t = ''center''"
  shows "\<exists>ts'. over_body ts = Inr ts' \<and>
           filter (\<lambda>t. lineCondition t \<noteq> ''center'') ts' = filter (\<lambda>t. lineCondition t \<noteq> ''center'') ts \<and>
           filter (\<lambda>t. lineCondition t = ''center'') ts' = tl (filter (\<lambda>t. lineCondition t = ''center'') ts)"
proof -
  from assms obtain pre t post where s: "ts = pre @ t # post" "lineCondition t = ''center''"
    "\<forall>p \<in> set pre. lineCondition p \<noteq> ''center''"
    by (auto dest!: split_list_first_prop)
  then have "filter (\<lambda>t. lineCondition t = ''center'') pre = []"
    by (simp add: filter_empty_conv)
  with s show ?thesis by (simp add: over_body_center)
qed

lemma over_shoot_done:
  "int (length ts) \<le> total_trials \<Longrightarrow> over_shoot total_trials ts = Inr ts"
  by (simp add: over_shoot.simps)

lemma over_shoot_length:
  "0 \<le> total_trials \<Longrightarrow>
   \<exists>ts'. over_shoot total_trials ts = Inr ts' \<and> int (length ts') = min total_trials (int (length ts))"
proof (induction total_trials ts rule: over_shoot.induct)
  case (1 total_trials trials)
  show ?case
  proof (cases "total_trials < int (length trials)")
    case True
    with "1.prems" have "trials \<noteq> []" by auto
    then obtain ts1 where b: "over_body trials = Inr ts1" "Suc (length ts1) = length trials"
      using over_body_deletes_one by blast
    from "1.IH" [OF True b(1) "1.prems"] obtain ts' where
      "over_shoot total_trials ts1 = Inr ts'" "int (length ts') = min total_trials (int (length ts1))"
      by blast
    with True b show ?thesis
      by (subst over_shoot.simps) auto
  next
    case False
    then show ?thesis by (simp add: over_shoot.simps)
  qed
qed

lemma over_shoot_negative:
  "total_trials < 0 \<Longrightarrow> over_shoot total_trials ts = Inl IndexError"
proof (induction total_trials ts rule: over_shoot.induct)
  case (1 total_trials trials)
  show ?case
  proof (cases "trials = []")
    case True
    with "1.prems" show ?thesis
      by (subst over_shoot.simps) (simp add: over_body_Nil)
  next
    case False
    then obtain ts1 where b: "over_body trials = Inr ts1"
      using over_body_deletes_one by blast
    from "1.prems" have lt: "total_trials < int (length trials)" by simp
    from "1.IH" [OF lt b "1.prems"] lt b show ?thesis
      by (subst over_shoot.simps) simp
  qed
qed

lemma over_shoot_filter:
  "nat (int (length ts) - total_trials) \<le> length (filter (\<lambda>t. lineCondition t = ''center'') ts) \<Longrightarrow>
   \<exists>ts'. over_shoot total_trials ts = Inr ts' \<and>
     filter (\<lambda>t. lineCondition t \<noteq> ''center'') ts' = filter (\<lambda>t. lineCondition t \<noteq> ''center'') ts \<and>
     filter (\<lambda>t. lineCondition t = ''center'') ts' =
       drop (nat (int (length ts) - total_trials)) (filter (\<lambda>t. lineCondition t = ''center'') ts)"
proof (induction total_trials ts rule: over_shoot.induct)
  case (1 total_trials trials)
  let ?c = "\<lambda>t. lineCondition t = ''center''"
  let ?n = "\<lambda>t. lineCondition t \<noteq> ''center''"
  show ?case
  proof (cases "total_trials < int (length trials)")
    case True
    with "1.prems" have "filter ?c trials \<noteq> []" by auto
    then have "\<exists>t \<in> set trials. ?c t" by (simp add: filter_empty_conv)
    from over_body_filter [OF this] obtain ts1 where b: "over_body trials = Inr ts1"
      "filter ?n ts1 = filter ?n trials" "filter ?c ts1 = tl (filter ?c trials)"
      by blast
    have len: "Suc (length ts1) = length trials"
      using b(1) by (auto simp: over_body_def del_at_def split: if_splits)
    have d: "nat (int (length trials) - total_trials) = Suc (nat (int (length ts1) - total_trials))"
      using True len by auto
    have "nat (int (length ts1) - total_trials) \<le> length (filter ?c ts1)"
      using "1.prems" d b(3) by simp
    from "1.IH" [OF True b(1) this] obtain ts' where r: "over_shoot total_trials ts1 = Inr ts'"
      "filter ?n ts' = filter ?n ts1"
      "filter ?c ts' = drop (nat (int (length ts1) - total_trials)) (filter ?c ts1)"
      by blast
    have "over_shoot total_trials trials = Inr ts'"
      using True b(1) r(1) by (subst over_shoot.simps) simp
    with r b d show ?thesis by (simp add: drop_Suc)
  next
    case False
    then show ?thesis by (simp add: over_shoot.simps)
  qed
qed

subsection \<open>Shuffle and numbering\<close>

lemma draw_less: "0 < n \<Longrightarrow> fst (draw rb g n) < n"
  by (simp add: draw_def split: prod.splits)

lemma shuffle_loop_mset:
  "k < length x \<Longrightarrow> mset (fst (shuffle_loop rb k x g)) = mset x"
proof (induction k arbitrary: x g)
  case 0
  show ?case by simp
next
  case (Suc k)
  obtain j g' where d: "draw rb g (Suc (Suc k)) = (j, g')" by (cases "draw rb g (Suc (Suc k))")
  have "j < Suc (Suc k)" using draw_less [of "Suc (Suc k)" rb g] d by simp
  with Suc.prems have j: "j < length x" by simp
  let ?x = "x[Suc k := x ! j, j := x ! Suc k]"
  have "mset ?x = mset x" using mset_swap [OF j Suc.prems] .
  moreover have "mset (fst (shuffle_loop rb k ?x g')) = mset ?x"
    using Suc.prems by (intro Suc.IH) simp
  ultimately show ?case by (simp add: d)
qed

lemma shuffle_mset: "mset (fst (shuffle rb x g)) = mset x"
proof (cases x)
  case Nil
  then show ?thesis by (simp add: shuffle_def)
next
  case (Cons a as)
  then show ?thesis by (simp add: shuffle_def shuffle_loop_mset)
qed

lemma shuffle_length: "length (fst (shuffle rb x g)) = length x"
  using shuffle_mset [of rb x g] by (metis size_mset)

lemma shuffle_set: "set (fst (shuffle rb x g)) = set x"
  using shuffle_mset [of rb x g] by (metis set_mset_mset)

lemma number_length: "length (number ts) = length ts"
  by (simp add: number_def)

lemma number_cue: "map cueCondition (number ts) = map cueCondition ts"
proof -
  have "map cueCondition (map (\<lambda>(i, t). t\<lparr>trial_num := Some (int i)\<rparr>) (enumerate n ts)) =
        map cueCondition ts" for n
    by (induction ts arbitrary: n) simp_all
  then show ?thesis by (simp only: number_def)
qed

lemma number_line: "map lineCondition (number ts) = map lineCondition ts"
proof -
  have "map lineCondition (map (\<lambda>(i, t). t\<lparr>trial_num := Some (int i)\<rparr>) (enumerate n ts)) =
        map lineCondition ts" for n
    by (induction ts arbitrary: n) simp_all
  then show ?thesis by (simp only: number_def)
qed

lemma number_trial_num: "map trial_num (number ts) = map (\<lambda>i. Some (int i)) [1..<Suc (length ts)]"
proof -
  have "map trial_num (map (\<lambda>(i, t). t\<lparr>trial_num := Some (int i)\<rparr>) (enumerate n ts)) =
        map (\<lambda>i. Some (int i)) [n..<n + length ts]" for n
  proof (induction ts arbitrary: n)
    case Nil
    show ?case by simp
  next
    case (Cons t ts)
    have "n < n + length (t # ts)" by simp
    then have "[n..<n + length (t # ts)] = n # [Suc n..<n + length (t # ts)]"
      by (rule upt_conv_Cons)
    then have "[n..<n + length (t # ts)] = n # [Suc n..<Suc n + length ts]"
      by (simp only: list.size add_Suc_right add_Suc add_0_right)
    with Cons [of "Suc n"] show ?case by simp
  qed
  from this [of 1] show ?thesis by (simp only: number_def) simp
qed

lemma map_int_upt: "map int [1..<Suc n] = [1..int n]"
proof (induction n)
  case 0
  show ?case by simp
next
  case (Suc n)
  have "[1..int (Suc n)] = [1..int n] @ [int (Suc n)]"
    using upto_rec2 [of 1 "int (Suc n)"] by simp
  with Suc show ?case by simp
qed

lemma number_trial_num_upto: "map trial_num (number ts) = map Some [1..int (length ts)]"
proof -
  have "map (\<lambda>i. Some (int i)) [1..<Suc (length ts)] = map Some (map int [1..<Suc (length ts)])"
    by (simp add: comp_def)
  then show ?thesis by (simp only: number_trial_num map_int_upt)
qed

lemma number_cue_line: "map cue_line (number ts) = map cue_line ts"
proof -
  have "map cue_line (number ts) = map (\<lambda>(c, l). (c, l)) (zip (map cueCondition (number ts)) (map lineCondition (number ts)))"
    by (simp add: zip_map_map cue_line_def zip_same_conv_map)
  also have "\<dots> = map cue_line ts"
    by (simp add: number_cue number_line) (simp add: zip_map_map cue_line_def zip_same_conv_map)
  finally show ?thesis .
qed

section \<open>The claims\<close>

subsection \<open>Cardinality and sequence numbers\<close>

lemma reconcile_length:
  assumes "0 \<le> total_trials"
  shows "\<exists>ts. reconcile rb g0 total_trials trials = Inr ts \<and> int (length ts) = total_trials"
proof -
  obtain us g where u: "under_shoot rb total_trials (trials, g0) = (us, g)"
    by (cases "under_shoot rb total_trials (trials, g0)")
  have "int (length us) = max total_trials (int (length trials))"
    using length_under_shoot [of rb total_trials trials g0] u by simp
  moreover from over_shoot_length [OF assms, of us] obtain ts where
    "over_shoot total_trials us = Inr ts" "int (length ts) = min total_trials (int (length us))"
    by blast
  ultimately show ?thesis by (auto simp: reconcile_def u)
qed

text \<open>
  Claim C1 (cardinality). For every total above 0, with the fixed table of three line
  conditions and the two cue conditions, the script ends without an exception and the
  list it produces has exactly as many records as the total asks for. This holds for
  every generator, every starting state of it and every seed, so in particular for the
  totals 1, 2, 100, 150 and 301.
\<close>

theorem generate_cardinality:
  assumes "0 < total_trials"
  shows "\<exists>trials. generate rb sd g0 total_trials seed = Inr trials \<and>
           int (length trials) = total_trials"
proof -
  from reconcile_length [of total_trials rb g0 "allocate total_trials"] assms
  obtain ts where r: "reconcile rb g0 total_trials (allocate total_trials) = Inr ts"
    "int (length ts) = total_trials" by auto
  then show ?thesis
    by (simp add: generate_def shuffle_and_number_def number_length shuffle_length)
qed

theorem generate_cardinality_witness:
  "(0::int) < 100 \<and>
   (\<exists>trials. generate counter_rb counter_seed 0 100 42 = Inr trials \<and> int (length trials) = 100)"
  using generate_cardinality [of 100 counter_rb counter_seed 0 42] by simp

text \<open>
  Claim C2 (sequence integrity). The values of \<^verbatim>\<open>trial_num\<close> in the final list, read in
  list order, are 1, 2, ..., total: each number from 1 to the total once, contiguous,
  starting at 1, whatever cue and line conditions the records carry. Numbering does this
  to any list it is given.
\<close>

theorem generate_sequence_numbers:
  assumes "0 < total_trials"
  shows "(\<exists>trials. generate rb sd g0 total_trials seed = Inr trials \<and>
            map trial_num trials = map Some [1..total_trials]) \<and>
         map trial_num (number ts0) = map Some [1..int (length ts0)]"
proof -
  from reconcile_length [of total_trials rb g0 "allocate total_trials"] assms
  obtain ts where r: "reconcile rb g0 total_trials (allocate total_trials) = Inr ts"
    "int (length ts) = total_trials" by auto
  have "map trial_num (shuffle_and_number rb sd seed ts) = map Some [1..int (length ts)]"
    by (simp add: shuffle_and_number_def number_trial_num_upto shuffle_length)
  with r show ?thesis by (simp add: generate_def number_trial_num_upto)
qed

theorem generate_sequence_numbers_witness:
  "(0::int) < 2 \<and>
   (\<exists>trials. generate counter_rb counter_seed 0 2 42 = Inr trials \<and>
      map trial_num trials = [Some 1, Some 2])"
proof -
  have "[1..2::int] = [1, 2]" by code_simp
  with generate_sequence_numbers [of 2 counter_rb counter_seed 0 42 "[]"] show ?thesis by simp
qed

subsection \<open>The allocation phase\<close>

lemma n_per_cue_eq: "n_per_cue total_trials p = py_round (of_int total_trials * p) div 2"
  by (simp add: n_per_cue_def n_line_def cue_conditions_def)

lemma alloc_table_counts:
  "\<forall>(line_type, proportion) \<in> set [(''congruent'', p1), (''incongruent'', p2), (''center'', p3)].
     \<forall>cue \<in> set cue_conditions.
      length (filter (\<lambda>t. cueCondition t = cue \<and> lineCondition t = line_type)
        (concat (map (alloc_line total_trials) [(''congruent'', p1), (''incongruent'', p2), (''center'', p3)])))
        = nat (n_per_cue total_trials proportion) \<and>
      length (filter (\<lambda>t. lineCondition t = line_type)
        (concat (map (alloc_line total_trials) [(''congruent'', p1), (''incongruent'', p2), (''center'', p3)])))
        = 2 * nat (n_per_cue total_trials proportion)"
  by (simp add: alloc_line_def cue_conditions_def)

lemma floor_half_remainder: "(n::int) - 2 * (n div 2) \<in> {0, 1}"
  by (simp add: minus_mult_div_eq_mod) presburger

text \<open>
  Claim C3 (allocation phase). For each entry of the table, in the order of the table,
  and for each cue condition, the allocation holds exactly
  \<open>round(total * proportion) // 2\<close> records of that cue and line condition, all
  identical (none when that number is negative), so twice that number per line
  condition. The remainder of the division by
  two, 0 or 1, is not handed to anyone. The allocated sum can therefore fall short of
  the total by more than the rounding of the proportions explains: for a total of 100
  the three rounded shares add up to 99, and 96 records are allocated.
\<close>

theorem allocation_per_cue_and_line:
  "(\<forall>(line_type, proportion) \<in> set line_conditions. \<forall>cue \<in> set cue_conditions.
      length (filter (\<lambda>t. cueCondition t = cue \<and> lineCondition t = line_type) (allocate total_trials))
        = nat (py_round (of_int total_trials * proportion) div 2) \<and>
      length (filter (\<lambda>t. lineCondition t = line_type) (allocate total_trials))
        = 2 * nat (py_round (of_int total_trials * proportion) div 2)) \<and>
   py_round x - 2 * (py_round x div 2) \<in> {0, 1} \<and>
   allocate total_trials =
     concat (map (\<lambda>(line_type, proportion).
       concat (map (\<lambda>cue. replicate (nat (py_round (of_int total_trials * proportion) div 2))
           \<lparr>cueCondition = cue, lineCondition = line_type, trial_num = None\<rparr>) cue_conditions))
       line_conditions) \<and>
   (\<Sum>(line_type, proportion) \<leftarrow> line_conditions. py_round (of_int 100 * proportion)) = 99 \<and>
   length (allocate 100) = 96"
proof -
  have a: "\<forall>(line_type, proportion) \<in> set line_conditions. \<forall>cue \<in> set cue_conditions.
      length (filter (\<lambda>t. cueCondition t = cue \<and> lineCondition t = line_type) (allocate total_trials))
        = nat (py_round (of_int total_trials * proportion) div 2) \<and>
      length (filter (\<lambda>t. lineCondition t = line_type) (allocate total_trials))
        = 2 * nat (py_round (of_int total_trials * proportion) div 2)"
    using alloc_table_counts [of "3333333333333 / 10000000000000" "3333333333333 / 10000000000000"
        "3333333333333 / 10000000000000" total_trials]
    by (simp only: allocate_def line_conditions_def n_per_cue_eq)
  have b: "allocate total_trials =
     concat (map (\<lambda>(line_type, proportion).
       concat (map (\<lambda>cue. replicate (nat (py_round (of_int total_trials * proportion) div 2))
           \<lparr>cueCondition = cue, lineCondition = line_type, trial_num = None\<rparr>) cue_conditions))
       line_conditions)"
    by (simp add: allocate_def alloc_line_def n_per_cue_eq cue_conditions_def line_conditions_def)
  have c: "(\<Sum>(line_type, proportion) \<leftarrow> line_conditions. py_round (of_int 100 * proportion)) = 99"
    by code_simp
  have "n_per_cue 100 (3333333333333 / 10000000000000) = 16" by code_simp
  then have d: "length (allocate 100) = 96" by (simp add: length_allocate)
  from a floor_half_remainder [of "py_round x"] b c d show ?thesis by (intro conjI)
qed

theorem allocation_per_cue_and_line_witness:
  "(''center'', 3333333333333 / 10000000000000) \<in> set line_conditions \<and>
   ''uncued'' \<in> set cue_conditions \<and>
   length (filter (\<lambda>t. cueCondition t = ''uncued'' \<and> lineCondition t = ''center'') (allocate 100)) = 16"
proof -
  have m: "(''center'', 3333333333333 / 10000000000000) \<in> set line_conditions"
    "''uncued'' \<in> set cue_conditions"
    by (simp_all add: line_conditions_def cue_conditions_def)
  have r: "nat (py_round (of_int 100 * (3333333333333 / 10000000000000)) div 2) = 16"
    by code_simp
  from allocation_per_cue_and_line [of 100] m
  have "length (filter (\<lambda>t. cueCondition t = ''uncued'' \<and> lineCondition t = ''center'') (allocate 100))
      = nat (py_round (of_int 100 * (3333333333333 / 10000000000000)) div 2)"
    by blast
  with m r show ?thesis by simp
qed


subsection \<open>The two reconciliation loops\<close>

text \<open>
  Claim C4 (over-shoot reconciliation). While the list is longer than the total, one
  iteration of the loop runs: it deletes the first record, in list order, whose line
  condition is center, and when no record is of that line condition it deletes the
  record at index 0 whatever its line condition. A record of another line condition can
  thus be deleted: with the total 0 and a single congruent record the result is empty.
\<close>

theorem over_shoot_removes_first_center:
  "(total_trials < int (length trials) \<longrightarrow>
      over_shoot total_trials trials =
        (case over_body trials of Inl e \<Rightarrow> Inl e | Inr trials' \<Rightarrow> over_shoot total_trials trials')) \<and>
   ((\<forall>p \<in> set pre. lineCondition p \<noteq> ''center'') \<and> lineCondition t = ''center'' \<longrightarrow>
      over_body (pre @ t # post) = Inr (pre @ post)) \<and>
   ((\<forall>p \<in> set (u # us). lineCondition p \<noteq> ''center'') \<longrightarrow> over_body (u # us) = Inr us) \<and>
   over_shoot 0 [\<lparr>cueCondition = ''cued'', lineCondition = ''congruent'', trial_num = None\<rparr>] = Inr []"
proof -
  have "over_shoot 0 [\<lparr>cueCondition = ''cued'', lineCondition = ''congruent'', trial_num = None\<rparr>] = Inr []"
    by code_simp
  then show ?thesis
    using over_body_center [of pre t post] over_body_no_center [of u us]
    by (subst over_shoot.simps) simp
qed

theorem over_shoot_removes_first_center_witness:
  "(1::int) < int (length [\<lparr>cueCondition = ''cued'', lineCondition = ''congruent'', trial_num = None\<rparr>,
       \<lparr>cueCondition = ''cued'', lineCondition = ''center'', trial_num = None\<rparr>,
       \<lparr>cueCondition = ''uncued'', lineCondition = ''center'', trial_num = None\<rparr>]) \<and>
   lineCondition \<lparr>cueCondition = ''cued'', lineCondition = ''congruent'', trial_num = None\<rparr>
     \<noteq> ''center'' \<and>
   over_body [\<lparr>cueCondition = ''cued'', lineCondition = ''congruent'', trial_num = None\<rparr>,
       \<lparr>cueCondition = ''cued'', lineCondition = ''center'', trial_num = None\<rparr>,
       \<lparr>cueCondition = ''uncued'', lineCondition = ''center'', trial_num = None\<rparr>] =
     Inr [\<lparr>cueCondition = ''cued'', lineCondition = ''congruent'', trial_num = None\<rparr>,
       \<lparr>cueCondition = ''uncued'', lineCondition = ''center'', trial_num = None\<rparr>] \<and>
   over_body [\<lparr>cueCondition = ''cued'', lineCondition = ''congruent'', trial_num = None\<rparr>,
       \<lparr>cueCondition = ''uncued'', lineCondition = ''incongruent'', trial_num = None\<rparr>] =
     Inr [\<lparr>cueCondition = ''uncued'', lineCondition = ''incongruent'', trial_num = None\<rparr>]"
  using over_shoot_removes_first_center [of 1
      "[\<lparr>cueCondition = ''cued'', lineCondition = ''congruent'', trial_num = None\<rparr>,
       \<lparr>cueCondition = ''cued'', lineCondition = ''center'', trial_num = None\<rparr>,
       \<lparr>cueCondition = ''uncued'', lineCondition = ''center'', trial_num = None\<rparr>]"
      "[\<lparr>cueCondition = ''cued'', lineCondition = ''congruent'', trial_num = None\<rparr>]"
      "\<lparr>cueCondition = ''cued'', lineCondition = ''center'', trial_num = None\<rparr>"
      "[\<lparr>cueCondition = ''uncued'', lineCondition = ''center'', trial_num = None\<rparr>]"
      "\<lparr>cueCondition = ''cued'', lineCondition = ''congruent'', trial_num = None\<rparr>"
      "[\<lparr>cueCondition = ''uncued'', lineCondition = ''incongruent'', trial_num = None\<rparr>]"]
  by simp

text \<open>
  Claim C5 (under-shoot reconciliation). While the list is shorter than the total, one
  iteration of the loop runs, and it appends exactly one record, whose cue condition is
  one of the two cue conditions and whose line condition is congruent or incongruent.
  The loop as a whole appends \<open>total - len(trials)\<close> such records behind the
  records it found, none of them of the line condition center.
\<close>

theorem under_shoot_appends_minority:
  "(\<exists>added. fst (under_shoot rb total_trials (trials, g)) = trials @ added \<and>
      length added = nat (total_trials - int (length trials)) \<and>
      (\<forall>t \<in> set added. cueCondition t \<in> set cue_conditions \<and>
         lineCondition t \<in> {''congruent'', ''incongruent''} \<and> lineCondition t \<noteq> ''center'')) \<and>
   (int (length trials) < total_trials \<longrightarrow>
      under_shoot rb total_trials (trials, g) = under_shoot rb total_trials (under_body rb (trials, g))) \<and>
   (\<exists>t. fst (under_body rb (trials, g)) = trials @ [t] \<and> cueCondition t \<in> set cue_conditions \<and>
      lineCondition t \<in> {''congruent'', ''incongruent''} \<and> lineCondition t \<noteq> ''center'')"
proof -
  have ne: "l \<in> {''congruent'', ''incongruent''} \<Longrightarrow> l \<noteq> ''center''" for l :: string
    by auto
  from under_shoot_appends [of rb total_trials trials g]
  have a: "\<exists>added. fst (under_shoot rb total_trials (trials, g)) = trials @ added \<and>
      length added = nat (total_trials - int (length trials)) \<and>
      (\<forall>t \<in> set added. cueCondition t \<in> set cue_conditions \<and>
         lineCondition t \<in> {''congruent'', ''incongruent''} \<and> lineCondition t \<noteq> ''center'')"
    using ne by blast
  have b: "int (length trials) < total_trials \<longrightarrow>
      under_shoot rb total_trials (trials, g) = under_shoot rb total_trials (under_body rb (trials, g))"
    by (subst under_shoot.simps) simp
  from under_body_appends [of rb trials g]
  have c: "\<exists>t. fst (under_body rb (trials, g)) = trials @ [t] \<and> cueCondition t \<in> set cue_conditions \<and>
      lineCondition t \<in> {''congruent'', ''incongruent''} \<and> lineCondition t \<noteq> ''center''"
    using ne by blast
  from a b c show ?thesis by (intro conjI)
qed

theorem under_shoot_appends_minority_witness:
  "int (length ([] :: trial list)) < 2 \<and>
   (\<exists>added. fst (under_shoot counter_rb 2 ([], 0)) = added \<and> length added = 2 \<and>
      (\<forall>t \<in> set added. lineCondition t \<noteq> ''center'')) \<and>
   under_shoot counter_rb 2 ([], 0) = under_shoot counter_rb 2 (under_body counter_rb ([], 0))"
  using under_shoot_appends_minority [of counter_rb 2 "[]" 0] by auto

lemma generate_Inr:
  "reconcile rb g0 total_trials (allocate total_trials) = Inr ts \<Longrightarrow>
   generate rb sd g0 total_trials seed = Inr (shuffle_and_number rb sd seed ts)"
  by (simp add: generate_def)

lemma shuffle_and_number_cue_line:
  "mset (map cue_line (shuffle_and_number rb sd seed ts)) = mset (map cue_line ts)"
  by (simp add: shuffle_and_number_def number_cue_line shuffle_mset)

lemma shuffle_and_number_set:
  "cue_line ` set (shuffle_and_number rb sd seed ts) = cue_line ` set ts"
proof -
  have "set (map cue_line (shuffle_and_number rb sd seed ts)) = set (map cue_line ts)"
    using shuffle_and_number_cue_line [of rb sd seed ts] by (metis set_mset_mset)
  then show ?thesis by simp
qed

subsection \<open>A total that is not positive\<close>

text \<open>
  Claim C7 (fail-fast on a total that is not positive), as amended. The script checks
  nothing before it allocates. For a total of 0 or less, and above \<open>-10\<^sup>1\<^sup>2\<close>, the
  allocation phase runs and yields no record. With the total 0 the four phases then end
  without an exception, on the empty list. With a total below 0 the first exception is
  the \<^verbatim>\<open>IndexError\<close> of \<^verbatim>\<open>del trials[0]\<close> on the empty list, in the over-shoot loop.
  The bound keeps the statement to the totals on which \<open>n_line\<close> is the number the
  script computes.
\<close>

theorem generate_no_validation:
  assumes "total_trials \<le> 0" and "- 1000000000000 < total_trials"
  shows "allocate total_trials = [] \<and>
         generate rb sd g0 total_trials seed = (if total_trials = 0 then Inr [] else Inl IndexError)"
proof -
  have a: "allocate total_trials = []" using assms(1) by (rule allocate_nonpos)
  have u: "under_shoot rb total_trials ([], g0) = ([], g0)"
    using assms(1) by (simp add: under_shoot_done)
  have r: "reconcile rb g0 total_trials (allocate total_trials) = over_shoot total_trials []"
    by (simp add: a reconcile_def u)
  have "generate rb sd g0 total_trials seed = (if total_trials = 0 then Inr [] else Inl IndexError)"
  proof (cases "total_trials = 0")
    case True
    then have "over_shoot total_trials [] = Inr []" by (simp add: over_shoot_done)
    with r have "reconcile rb g0 total_trials (allocate total_trials) = Inr []" by simp
    then have "generate rb sd g0 total_trials seed = Inr (shuffle_and_number rb sd seed [])"
      by (rule generate_Inr)
    with True show ?thesis
      by (simp add: shuffle_and_number_def shuffle_def number_def)
  next
    case False
    with assms(1) have "total_trials < 0" by simp
    then have "over_shoot total_trials [] = Inl IndexError" by (rule over_shoot_negative)
    with r have "reconcile rb g0 total_trials (allocate total_trials) = Inl IndexError" by simp
    with False show ?thesis by (simp add: generate_def)
  qed
  with a show ?thesis ..
qed

text \<open>An instance of the amended claim C7: the total -1.\<close>

theorem generate_no_validation_witness:
  "(-1::int) \<le> 0 \<and> - 1000000000000 < (-1::int) \<and>
   allocate (-1) = [] \<and> generate counter_rb counter_seed 0 (-1) 42 = Inl IndexError"
  using generate_no_validation [of "-1" counter_rb counter_seed 0 42] by simp

text \<open>
  Against claim C7 as stated: with the total 0 the four phases produce a list, the empty
  one, and no error.
\<close>

theorem generate_total_zero_counterexample:
  "generate counter_rb counter_seed 0 0 42 = Inr []"
  by code_simp

subsection \<open>The seeded shuffle and the numbering\<close>

text \<open>
  Claim C8 (reproducible shuffle). When the allocated list already has the length the
  total asks for, neither loop of the reconciliation runs, and the output is the
  seeded shuffle of the allocated list, numbered. Two runs with the same total, table
  and seed then give the same output, whatever state the generator was in when each run
  started.
\<close>

theorem shuffle_reproducible:
  assumes "int (length (allocate total_trials)) = total_trials"
  shows "generate rb sd g0 total_trials seed = generate rb sd g0' total_trials seed \<and>
         generate rb sd g0 total_trials seed =
           Inr (number (fst (shuffle rb (allocate total_trials) (sd seed))))"
  using assms
  by (simp add: generate_def reconcile_def under_shoot_done over_shoot_done shuffle_and_number_def)

theorem shuffle_reproducible_witness:
  "int (length (allocate 150)) = 150 \<and>
   generate counter_rb counter_seed 0 150 42 = generate counter_rb counter_seed 7 150 42"
proof -
  have "n_per_cue 150 (3333333333333 / 10000000000000) = 25" by code_simp
  then have "int (length (allocate 150)) = 150" by (simp add: length_allocate)
  with shuffle_reproducible [of 150 counter_rb counter_seed 0 42 7] show ?thesis by simp
qed

text \<open>
  Claim C9 (frame of the ordering and numbering phases). The output is the reconciled
  list, shuffled and numbered. The shuffle is a permutation of the list it is given, and
  numbering leaves the length and, record by record, the cue and line condition as they
  were. So after the reconciliation the length and the multiset of pairs of a cue and a
  line condition do not change.
\<close>

theorem shuffle_and_number_frame:
  "length (shuffle_and_number rb sd seed trials) = length trials \<and>
   mset (map cue_line (shuffle_and_number rb sd seed trials)) = mset (map cue_line trials) \<and>
   mset (fst (shuffle rb trials g)) = mset trials \<and>
   length (number trials) = length trials \<and>
   map cueCondition (number trials) = map cueCondition trials \<and>
   map lineCondition (number trials) = map lineCondition trials \<and>
   generate rb sd g0 total_trials seed =
     map_sum id (shuffle_and_number rb sd seed) (reconcile rb g0 total_trials (allocate total_trials))"
proof -
  have "generate rb sd g0 total_trials seed =
     map_sum id (shuffle_and_number rb sd seed) (reconcile rb g0 total_trials (allocate total_trials))"
    by (simp add: generate_def split: sum.splits)
  moreover have "length (shuffle_and_number rb sd seed trials) = length trials"
    by (simp add: shuffle_and_number_def number_length shuffle_length)
  ultimately show ?thesis
    by (simp only: shuffle_and_number_cue_line shuffle_mset number_length number_cue number_line)
qed

text \<open>
  Claim C10 (the reconciliation ends). Both loops are total functions. For a total of 0
  or more: the under-shoot loop is its body run \<open>total - len(trials)\<close> times, each
  run making the list one longer; whenever the over-shoot loop runs its body the list
  is not empty, so the deletion is in range and makes the list one shorter; the
  over-shoot loop ends without an exception at the smaller of the total and the length
  it started from; and the two loops in turn end with a list of exactly the length the
  total asks for.
\<close>

theorem reconciliation_terminates:
  assumes "0 \<le> total_trials"
  shows "under_shoot rb total_trials (trials, g) =
           (under_body rb ^^ nat (total_trials - int (length trials))) (trials, g) \<and>
         length (fst (under_body rb (trials, g))) = Suc (length trials) \<and>
         (total_trials < int (length trials) \<longrightarrow>
           (\<exists>ts. over_body trials = Inr ts \<and> Suc (length ts) = length trials)) \<and>
         (\<exists>ts. over_shoot total_trials trials = Inr ts \<and>
           int (length ts) = min total_trials (int (length trials))) \<and>
         (\<exists>ts. reconcile rb g total_trials trials = Inr ts \<and> int (length ts) = total_trials)"
proof -
  have a: "under_shoot rb total_trials (trials, g) =
           (under_body rb ^^ nat (total_trials - int (length trials))) (trials, g)"
    using under_shoot_funpow [of rb total_trials "(trials, g)"] by simp
  have b: "length (fst (under_body rb (trials, g))) = Suc (length trials)"
    using length_under_body [of rb "(trials, g)"] by simp
  have c: "total_trials < int (length trials) \<longrightarrow>
           (\<exists>ts. over_body trials = Inr ts \<and> Suc (length ts) = length trials)"
  proof
    assume "total_trials < int (length trials)"
    with assms have "trials \<noteq> []" by auto
    then show "\<exists>ts. over_body trials = Inr ts \<and> Suc (length ts) = length trials"
      by (rule over_body_deletes_one)
  qed
  have d: "\<exists>ts. over_shoot total_trials trials = Inr ts \<and>
           int (length ts) = min total_trials (int (length trials))"
    using assms by (rule over_shoot_length)
  have e: "\<exists>ts. reconcile rb g total_trials trials = Inr ts \<and> int (length ts) = total_trials"
    using assms by (rule reconcile_length)
  from a b c d e show ?thesis by (intro conjI)
qed

theorem reconciliation_terminates_witness:
  "(0::int) \<le> 0 \<and>
   0 < int (length [\<lparr>cueCondition = ''cued'', lineCondition = ''congruent'', trial_num = None\<rparr>]) \<and>
   over_body [\<lparr>cueCondition = ''cued'', lineCondition = ''congruent'', trial_num = None\<rparr>] = Inr [] \<and>
   over_shoot 0 [\<lparr>cueCondition = ''cued'', lineCondition = ''congruent'', trial_num = None\<rparr>] = Inr [] \<and>
   reconcile counter_rb 0 0 [\<lparr>cueCondition = ''cued'', lineCondition = ''congruent'', trial_num = None\<rparr>]
     = Inr []"
  using reconciliation_terminates [of 0 counter_rb
      "[\<lparr>cueCondition = ''cued'', lineCondition = ''congruent'', trial_num = None\<rparr>]" 0]
  by auto

subsection \<open>Coverage of the pairs of conditions\<close>

lemma ball_line_conditions:
  "(\<forall>(line_type, proportion) \<in> set line_conditions. P line_type proportion) \<longleftrightarrow>
   P ''congruent'' (3333333333333 / 10000000000000) \<and>
   P ''incongruent'' (3333333333333 / 10000000000000) \<and>
   P ''center'' (3333333333333 / 10000000000000)"
  by (simp add: line_conditions_def)

lemma ball_cue_conditions:
  "(\<forall>cue \<in> set cue_conditions. P cue) \<longleftrightarrow> P ''cued'' \<and> P ''uncued''"
  by (simp add: cue_conditions_def)

lemma allocate_center:
  "filter (\<lambda>t. lineCondition t = ''center'') (allocate total_trials) =
     replicate (nat (n_per_cue total_trials (3333333333333 / 10000000000000)))
       \<lparr>cueCondition = ''cued'', lineCondition = ''center'', trial_num = None\<rparr> @
     replicate (nat (n_per_cue total_trials (3333333333333 / 10000000000000)))
       \<lparr>cueCondition = ''uncued'', lineCondition = ''center'', trial_num = None\<rparr>"
  by (simp only: allocate_eq Let_def) simp

lemma allocate_not_center:
  assumes "1 \<le> n_per_cue total_trials (3333333333333 / 10000000000000)"
  shows "cue_line ` set (filter (\<lambda>t. lineCondition t \<noteq> ''center'') (allocate total_trials)) =
     {(''cued'', ''congruent''), (''uncued'', ''congruent''),
      (''cued'', ''incongruent''), (''uncued'', ''incongruent'')}"
proof -
  from assms have "0 < nat (n_per_cue total_trials (3333333333333 / 10000000000000))" by simp
  then show ?thesis
    by (simp only: allocate_eq Let_def) (auto simp: cue_line_def)
qed

lemma reconcile_allocate:
  assumes "0 \<le> total_trials"
    and "1 \<le> n_per_cue total_trials (3333333333333 / 10000000000000)"
  shows "\<exists>ts. reconcile rb g0 total_trials (allocate total_trials) = Inr ts \<and>
     filter (\<lambda>t. lineCondition t \<noteq> ''center'') (allocate total_trials) =
       take (length (filter (\<lambda>t. lineCondition t \<noteq> ''center'') (allocate total_trials)))
         (filter (\<lambda>t. lineCondition t \<noteq> ''center'') ts) \<and>
     filter (\<lambda>t. lineCondition t = ''center'') ts =
       drop (nat (int (length (allocate total_trials)) - total_trials))
         (filter (\<lambda>t. lineCondition t = ''center'') (allocate total_trials)) \<and>
     nat (int (length (allocate total_trials)) - total_trials) \<le> 1"
proof -
  let ?A = "allocate total_trials"
  let ?c = "\<lambda>t. lineCondition t = ''center''"
  let ?n = "\<lambda>t. lineCondition t \<noteq> ''center''"
  let ?d = "nat (int (length ?A) - total_trials)"
  obtain added where u: "fst (under_shoot rb total_trials (?A, g0)) = ?A @ added"
    "length added = nat (total_trials - int (length ?A))"
    "\<forall>t \<in> set added. cueCondition t \<in> set cue_conditions \<and>
        lineCondition t \<in> {''congruent'', ''incongruent''} \<and> trial_num t = None"
    using under_shoot_appends [of rb total_trials ?A g0] by blast
  have "\<forall>t \<in> set added. lineCondition t \<noteq> ''center''" using u(3) by auto
  then have fa: "filter ?c added = []" "filter ?n added = added"
    by (simp_all add: filter_empty_conv)
  have d1: "?d \<le> 1" using length_allocate_le [OF assms(1)] by simp
  have dus: "nat (int (length (?A @ added)) - total_trials) = ?d"
    using u(2) by auto
  have "1 \<le> length (filter ?c ?A)"
    using assms(2) by (simp add: allocate_center)
  with d1 have "nat (int (length (?A @ added)) - total_trials) \<le> length (filter ?c (?A @ added))"
    by (simp only: dus) (simp add: fa)
  from over_shoot_filter [OF this] obtain ts where ts: "over_shoot total_trials (?A @ added) = Inr ts"
    "filter ?n ts = filter ?n (?A @ added)"
    "filter ?c ts = drop (nat (int (length (?A @ added)) - total_trials)) (filter ?c (?A @ added))"
    by blast
  have "reconcile rb g0 total_trials ?A = Inr ts"
    by (simp add: reconcile_def u(1) ts(1))
  moreover have "filter ?n ?A = take (length (filter ?n ?A)) (filter ?n ts)"
    by (simp add: ts(2))
  moreover have "filter ?c ts = drop ?d (filter ?c ?A)"
    using ts(3) by (simp only: dus) (simp add: fa)
  ultimately show ?thesis using d1 by blast
qed


text \<open>
  Claim C6 (coverage of the pairs), as amended. Let the total be such that every line
  condition is allocated at least one record per cue condition. Then the script ends
  without an exception, and every pair of a cue and a line condition other than
  (cued, center) occurs in the final list. The pair (cued, center) occurs as well when
  the allocation is not longer than the total, or when center is allocated at least two
  records per cue condition. An allocation that is too long is too long by one record,
  and the over-shoot loop then deletes the first center record, a cued one.
\<close>

theorem coverage_when_allocated:
  assumes "\<forall>(line_type, proportion) \<in> set line_conditions. 1 \<le> n_per_cue total_trials proportion"
  shows "\<exists>trials. generate rb sd g0 total_trials seed = Inr trials \<and>
     (\<forall>cue \<in> set cue_conditions. \<forall>(line_type, proportion) \<in> set line_conditions.
        (cue, line_type) \<noteq> (''cued'', ''center'') \<or>
        int (length (allocate total_trials)) \<le> total_trials \<or>
        2 \<le> n_per_cue total_trials proportion \<longrightarrow>
        (cue, line_type) \<in> cue_line ` set trials)"
proof -
  let ?p = "3333333333333 / 10000000000000 :: rat"
  let ?A = "allocate total_trials"
  let ?c = "\<lambda>t. lineCondition t = ''center''"
  let ?n = "\<lambda>t. lineCondition t \<noteq> ''center''"
  let ?d = "nat (int (length ?A) - total_trials)"
  let ?K = "nat (n_per_cue total_trials ?p)"
  let ?cc = "\<lparr>cueCondition = ''cued'', lineCondition = ''center'', trial_num = None\<rparr>"
  let ?uc = "\<lparr>cueCondition = ''uncued'', lineCondition = ''center'', trial_num = None\<rparr>"
  from assms have k: "1 \<le> n_per_cue total_trials ?p"
    by (simp only: ball_line_conditions)
  have pos: "0 \<le> total_trials"
  proof (rule ccontr)
    assume "\<not> 0 \<le> total_trials"
    then have "n_line total_trials ?p \<le> 0" by (intro n_line_nonpos) simp_all
    then have "n_per_cue total_trials ?p \<le> 0"
      by (simp add: n_per_cue_def cue_conditions_def)
    with k show False by simp
  qed
  from reconcile_allocate [OF pos k, of rb g0] obtain ts where
    r: "reconcile rb g0 total_trials ?A = Inr ts"
    and n: "filter ?n ?A = take (length (filter ?n ?A)) (filter ?n ts)"
    and c: "filter ?c ts = drop ?d (filter ?c ?A)"
    and d: "?d \<le> 1"
    by blast
  let ?out = "shuffle_and_number rb sd seed ts"
  have g: "generate rb sd g0 total_trials seed = Inr ?out" using r by (rule generate_Inr)
  have out: "cue_line ` set ?out = cue_line ` set ts" by (rule shuffle_and_number_set)
  have "set (filter ?n ?A) \<subseteq> set (filter ?n ts)"
    by (subst n) (rule set_take_subset)
  then have "cue_line ` set (filter ?n ?A) \<subseteq> cue_line ` set ts" by auto
  then have m: "(''cued'', ''congruent'') \<in> cue_line ` set ?out"
    "(''uncued'', ''congruent'') \<in> cue_line ` set ?out"
    "(''cued'', ''incongruent'') \<in> cue_line ` set ?out"
    "(''uncued'', ''incongruent'') \<in> cue_line ` set ?out"
    unfolding out allocate_not_center [OF k] by simp_all
  have K: "?d \<le> ?K" using d k by simp
  have cts: "filter ?c ts = replicate (?K - ?d) ?cc @ replicate ?K ?uc"
    using K by (simp add: c allocate_center)
  have "?uc \<in> set (filter ?c ts)" using k by (simp add: cts)
  then have "cue_line ?uc \<in> cue_line ` set ts" by auto
  moreover have "cue_line ?uc = (''uncued'', ''center'')" by (simp add: cue_line_def)
  ultimately have m5: "(''uncued'', ''center'') \<in> cue_line ` set ?out"
    by (simp only: out)
  have m6: "(''cued'', ''center'') \<in> cue_line ` set ?out"
    if "int (length ?A) \<le> total_trials \<or> 2 \<le> n_per_cue total_trials ?p"
  proof -
    from that d k have "0 < ?K - ?d" by auto
    then obtain m where "?K - ?d = Suc m" by (cases "?K - ?d") auto
    with cts have "filter ?c ts = ?cc # (replicate m ?cc @ replicate ?K ?uc)"
      by (simp only: replicate_Suc append_Cons)
    then have "?cc \<in> set (filter ?c ts)" by (simp only: list.set_intros(1))
    then have "cue_line ?cc \<in> cue_line ` set ts" by auto
    moreover have "cue_line ?cc = (''cued'', ''center'')" by (simp add: cue_line_def)
    ultimately show ?thesis by (simp only: out)
  qed
  have "\<forall>cue \<in> set cue_conditions. \<forall>(line_type, proportion) \<in> set line_conditions.
        (cue, line_type) \<noteq> (''cued'', ''center'') \<or>
        int (length (allocate total_trials)) \<le> total_trials \<or>
        2 \<le> n_per_cue total_trials proportion \<longrightarrow>
        (cue, line_type) \<in> cue_line ` set ?out"
    unfolding ball_cue_conditions ball_line_conditions
    using m m5 m6 by blast
  with g show ?thesis by blast
qed


text \<open>An instance of the amended claim C6: the total 6, allocated exactly.\<close>

theorem coverage_when_allocated_witness:
  "map (n_per_cue 6) (map snd line_conditions) = [1, 1, 1] \<and>
   int (length (allocate 6)) \<le> 6 \<and>
   (\<exists>trials. generate counter_rb counter_seed 0 6 42 = Inr trials \<and>
      (''cued'', ''center'') \<in> cue_line ` set trials \<and>
      (''uncued'', ''incongruent'') \<in> cue_line ` set trials)"
proof -
  have n: "n_per_cue 6 (3333333333333 / 10000000000000) = 1" by code_simp
  have h: "\<forall>(line_type, proportion) \<in> set line_conditions. 1 \<le> n_per_cue 6 proportion"
    by (simp only: ball_line_conditions n) simp
  have len: "int (length (allocate 6)) \<le> 6" by (simp add: length_allocate n)
  have mem: "''cued'' \<in> set cue_conditions" "''uncued'' \<in> set cue_conditions"
    "(''center'', 3333333333333 / 10000000000000) \<in> set line_conditions"
    "(''incongruent'', 3333333333333 / 10000000000000) \<in> set line_conditions"
    by (simp_all add: cue_conditions_def line_conditions_def)
  from coverage_when_allocated [OF h, of counter_rb counter_seed 0 42] len mem
  have "\<exists>trials. generate counter_rb counter_seed 0 6 42 = Inr trials \<and>
      (''cued'', ''center'') \<in> cue_line ` set trials \<and>
      (''uncued'', ''incongruent'') \<in> cue_line ` set trials"
    by fast
  moreover have "map (n_per_cue 6) (map snd line_conditions) = [1, 1, 1]"
    by (simp only: line_conditions_def list.map snd_conv n)
  ultimately show ?thesis using len by (intro conjI)
qed

text \<open>
  Against claim C6 as stated: with the total 5 every line condition is allocated one
  record per cue condition, six records in all; the over-shoot loop deletes the only
  record of the pair (cued, center), and the final list has none.
\<close>

theorem coverage_total_five_counterexample:
  "map (n_per_cue 5) (map snd line_conditions) = [1, 1, 1] \<and>
   map_sum id (map cue_line) (generate counter_rb counter_seed 0 5 42) =
     Inr [(''cued'', ''congruent''), (''uncued'', ''congruent''), (''uncued'', ''center''),
          (''uncued'', ''incongruent''), (''cued'', ''incongruent'')]"
  by code_simp

end
